theory Spec2Isabelle
  imports Main "HOL-Library.Word"
begin

section \<open>The record exporter of lab0/c_src/main.c\<close>

text \<open>
  The program fills an array of tagged records (\<open>ExportData\<close>) from two constant tables
  and dumps the array to a file with one \<open>fwrite\<close>. The embedding follows the C text:
  the two function-local \<open>static\<close> counters, the clock, the console and the contents of
  the output file are fields of an explicit \<open>world\<close> that every function takes and
  returns; what the run receives from outside (the readings of \<open>time\<close>, whether
  \<open>malloc\<close> and \<open>fopen\<close> succeed, the bytes found in memory that the program never
  initialises, the room left on the sink) is an \<open>env\<close>. Behaviour that C leaves
  undefined (a store through a null pointer, a store past the buffer, overflow of the
  \<open>int\<close> loop counter, \<open>fwrite\<close> on a null stream) is a \<open>fault\<close> value.

  The source leaves object representations to the host; they are fixed here to those
  of the x86-64 System V ABI: \<open>int\<close> and \<open>float\<close> take 4 bytes, \<open>long\<close> takes 8, members
  are naturally aligned and integers are little-endian. A \<open>float\<close> is carried as its
  IEEE-754 binary32 bit pattern: the program only copies floats, it never computes
  with them.
\<close>

subsection \<open>Scalar types and constants\<close>

type_synonym byte = "8 word"
type_synonym c_int = "32 word"
type_synonym c_long = "64 word"
type_synonym c_float = "32 word"

definition INT_MAX :: nat where
  "INT_MAX = 2147483647"

text \<open>\<^verbatim>\<open>typedef enum export_type_e { VALUE = 1, M_VALUE, MESSAGE } export_type_e;\<close>\<close>

definition VALUE :: c_int where
  "VALUE = 1"

definition M_VALUE :: c_int where
  "M_VALUE = 2"

definition MESSAGE :: c_int where
  "MESSAGE = 3"

definition EXPORT_STRINGS_LEN :: nat where
  "EXPORT_STRINGS_LEN = 7"

definition FLOAT_ARRAY_LEN :: nat where
  "FLOAT_ARRAY_LEN = 10"

definition EXPORT_DATA_LEN :: nat where
  "EXPORT_DATA_LEN = 100"

text \<open>
  A \<open>char[21]\<close> initialised from a string literal holds the characters of the literal
  and is zero in every remaining element.
\<close>

definition char_array :: "nat \<Rightarrow> string \<Rightarrow> byte list" where
  "char_array n s = map (\<lambda>c. of_nat (of_char c)) s @ replicate (n - length s) 0"

definition export_strings :: "byte list list" where
  "export_strings =
     [char_array 21 ''Bella'',
      char_array 21 ''Test'',
      char_array 21 ''Pippo'',
      char_array 21 ''Pluto'',
      char_array 21 ''42'',
      char_array 21 ''AnswerToTheUniverse'',
      char_array 21 ''E tutto il resto...'']"

text \<open>The table \<open>1.0, 2.0, ..., 10.0\<close>, each as the bit pattern of the \<open>float\<close>.\<close>

definition float_array :: "c_float list" where
  "float_array =
     [0x3F800000, \<comment> \<open>1.0\<close>
      0x40000000, \<comment> \<open>2.0\<close>
      0x40400000, \<comment> \<open>3.0\<close>
      0x40800000, \<comment> \<open>4.0\<close>
      0x40A00000, \<comment> \<open>5.0\<close>
      0x40C00000, \<comment> \<open>6.0\<close>
      0x40E00000, \<comment> \<open>7.0\<close>
      0x41000000, \<comment> \<open>8.0\<close>
      0x41100000, \<comment> \<open>9.0\<close>
      0x41200000] \<comment> \<open>10.0\<close>"

subsection \<open>The structs\<close>

record ValueStruct =
  v_type :: c_int
  v_val :: c_float
  v_timestamp :: c_long

record MValueStruct =
  mv_type :: c_int
  mv_val :: "c_float list"
  mv_timestamp :: c_long

record MessageStruct =
  msg_type :: c_int
  message :: "byte list"

text \<open>The anonymous union of \<open>ExportData\<close>, with the member that was last stored.\<close>

datatype export_union =
  Val ValueStruct
| Mvals MValueStruct
| Messages MessageStruct

record ExportData =
  ed_type :: c_int
  ed_union :: export_union

subsection \<open>World, environment, faults\<close>

record world =
  val_counter :: nat \<comment> \<open>\<open>static int val_counter\<close> of \<open>get_value_struct\<close>\<close>
  string_counter :: nat \<comment> \<open>\<open>static int string_counter\<close> of \<open>get_message_struct\<close>\<close>
  ticks :: nat \<comment> \<open>how many times \<open>time\<close> has been called\<close>
  console :: "(nat \<times> c_int) list" \<comment> \<open>the arguments of each \<open>printf("%d %d\n", ...)\<close>\<close>
  disk :: "byte list" \<comment> \<open>the contents of the file \<open>../data\<close>\<close>

record env =
  clock :: "nat \<Rightarrow> c_long" \<comment> \<open>what the n-th call of \<open>time(NULL)\<close> returns\<close>
  malloc_ok :: bool
  fopen_ok :: bool
  junk :: "nat \<Rightarrow> nat \<Rightarrow> byte" \<comment> \<open>the byte a slot of the array holds at an offset where no member was stored\<close>
  room :: nat \<comment> \<open>how many bytes the sink accepts before a write comes back short\<close>

datatype fault =
  Null_store \<comment> \<open>\<open>data[i] = ...\<close> with \<open>data == NULL\<close>\<close>
| Store_out_of_bounds \<comment> \<open>\<open>data[i] = ...\<close> past the end of the buffer\<close>
| Int_overflow \<comment> \<open>\<open>i++\<close> at \<open>INT_MAX\<close>\<close>
| Fwrite_null_stream \<comment> \<open>\<open>fwrite(..., fp)\<close> with \<open>fp == NULL\<close>\<close>
| Fwrite_out_of_bounds \<comment> \<open>\<open>fwrite\<close> reading past the end of the buffer, or from \<open>NULL\<close>\<close>

datatype FILE_ptr = NULL_stream | Stream

text \<open>A slot of the \<open>malloc\<close>ed array is \<open>None\<close> until a record is stored in it.\<close>

type_synonym buffer = "ExportData option list"

type_synonym 'a result = "(fault \<times> world) + 'a"

subsection \<open>Library calls\<close>

definition time :: "env \<Rightarrow> world \<Rightarrow> c_long \<times> world" where
  "time e w = (clock e (ticks w), w\<lparr>ticks := Suc (ticks w)\<rparr>)"

text \<open>
  \<open>memcpy\<close> between arrays of one element type, the count in elements:
  \<open>sizeof(value.val)\<close> is 10 floats and \<open>sizeof(message.message)\<close> is 21 chars.
\<close>

definition memcpy :: "'a list \<Rightarrow> nat \<Rightarrow> 'a list" where
  "memcpy src n = take n src"

definition printf :: "nat \<Rightarrow> c_int \<Rightarrow> world \<Rightarrow> world" where
  "printf i t w = w\<lparr>console := console w @ [(i, t)]\<rparr>"

subsection \<open>The three constructors\<close>

definition get_value_struct :: "env \<Rightarrow> world \<Rightarrow> ValueStruct \<times> world" where
  "get_value_struct e w =
     (let f = float_array ! val_counter w;
          (t, w1) = time e w;
          v = \<lparr>v_type = VALUE, v_val = f, v_timestamp = t\<rparr>
      in (v, w1\<lparr>val_counter := (val_counter w1 + 1) mod FLOAT_ARRAY_LEN\<rparr>))"

definition get_m_value_struct :: "env \<Rightarrow> world \<Rightarrow> MValueStruct \<times> world" where
  "get_m_value_struct e w =
     (let (t, w1) = time e w;
          v = \<lparr>mv_type = M_VALUE, mv_val = memcpy float_array 10, mv_timestamp = t\<rparr>
      in (v, w1))"

definition get_message_struct :: "world \<Rightarrow> MessageStruct \<times> world" where
  "get_message_struct w =
     (let m = \<lparr>msg_type = MESSAGE, message = memcpy (export_strings ! string_counter w) 21\<rparr>
      in (m, w\<lparr>string_counter := (string_counter w + 1) mod EXPORT_STRINGS_LEN\<rparr>))"

subsection \<open>Filling the array\<close>

text \<open>
  The \<open>switch (i % 3)\<close> of the loop body. The counter \<open>i\<close> is an \<open>int\<close> that starts at 0
  and only grows, so \<open>i % 3\<close> is one of 0, 1, 2 and one of the three cases is taken.
\<close>

definition switch_export :: "env \<Rightarrow> nat \<Rightarrow> world \<Rightarrow> ExportData \<times> world" where
  "switch_export e i w =
     (if i mod 3 = 0 then
        (let (v, w1) = get_value_struct e w
         in (\<lparr>ed_type = VALUE, ed_union = Val v\<rparr>, w1))
      else if i mod 3 = 1 then
        (let (v, w1) = get_m_value_struct e w
         in (\<lparr>ed_type = M_VALUE, ed_union = Mvals v\<rparr>, w1))
      else
        (let (m, w1) = get_message_struct w
         in (\<lparr>ed_type = MESSAGE, ed_union = Messages m\<rparr>, w1)))"

text \<open>\<open>data[i] = export\<close>.\<close>

definition store :: "buffer option \<Rightarrow> nat \<Rightarrow> ExportData \<Rightarrow> world \<Rightarrow> (buffer option) result" where
  "store data i x w =
     (case data of
        None \<Rightarrow> Inl (Null_store, w)
      | Some buf \<Rightarrow>
          if i < length buf then Inr (Some (buf[i := Some x]))
          else Inl (Store_out_of_bounds, w))"

text \<open>
  The loop \<open>for (int i = 0; i < len; i++)\<close>, entered at \<open>i\<close>. \<open>len\<close> is the value of the
  \<open>uint32_t\<close>; the comparison converts \<open>i\<close> to unsigned, which does not change a value
  that is not negative.
\<close>

function fill_export_data_from ::
  "env \<Rightarrow> buffer option \<Rightarrow> nat \<Rightarrow> nat \<Rightarrow> world \<Rightarrow> (buffer option \<times> world) result" where
  "fill_export_data_from e data len i w =
     (if i < len then
        (let (export, w1) = switch_export e i w;
             w2 = printf i (ed_type export) w1
         in case store data i export w2 of
              Inl f \<Rightarrow> Inl f
            | Inr data' \<Rightarrow>
                if i = INT_MAX then Inl (Int_overflow, w2)
                else fill_export_data_from e data' len (i + 1) w2)
      else Inr (data, w))"
  by pat_completeness auto
termination
  by (relation "measure (\<lambda>(e, data, len, i, w). len - i)") auto

declare fill_export_data_from.simps [simp del]

definition fill_export_data ::
  "env \<Rightarrow> buffer option \<Rightarrow> nat \<Rightarrow> world \<Rightarrow> (buffer option \<times> world) result" where
  "fill_export_data e data len w = fill_export_data_from e data len 0 w"

text \<open>
  The loop is described by its iterations: \<open>world_at e w n\<close> is the world after the
  bodies of the indices below \<open>n\<close> have run from \<open>w\<close>, and \<open>record_at e w i\<close> is the
  record that the body of index \<open>i\<close> then builds.
\<close>

fun world_at :: "env \<Rightarrow> world \<Rightarrow> nat \<Rightarrow> world" where
  "world_at e w 0 = w"
| "world_at e w (Suc n) =
     (let (x, w1) = switch_export e n (world_at e w n) in printf n (ed_type x) w1)"

definition record_at :: "env \<Rightarrow> world \<Rightarrow> nat \<Rightarrow> ExportData" where
  "record_at e w i = fst (switch_export e i (world_at e w i))"

subsection \<open>Object representations\<close>

text \<open>An unsigned value in \<open>n\<close> bytes, least significant byte first, and back.\<close>

fun le_bytes :: "nat \<Rightarrow> nat \<Rightarrow> byte list" where
  "le_bytes 0 x = []"
| "le_bytes (Suc n) x = of_nat (x mod 256) # le_bytes n (x div 256)"

fun le_value :: "byte list \<Rightarrow> nat" where
  "le_value [] = 0"
| "le_value (b # bs) = unat b + 256 * le_value bs"

text \<open>
  Bytes that the program never stores (padding, and the tail of the union behind a
  member shorter than the union) are whatever the slot holds: \<open>g\<close> gives the byte at each
  offset of the slot.
\<close>

definition pad :: "(nat \<Rightarrow> byte) \<Rightarrow> nat \<Rightarrow> nat \<Rightarrow> byte list" where
  "pad g off n = map g [off..<off + n]"

definition sizeof_ValueStruct :: nat where
  "sizeof_ValueStruct = 4 + 4 + 8"

definition sizeof_MValueStruct :: nat where
  "sizeof_MValueStruct = 4 + 10 * 4 + 4 + 8" \<comment> \<open>4 bytes of padding align the \<open>long\<close>\<close>

definition sizeof_MessageStruct :: nat where
  "sizeof_MessageStruct = 4 + 21 + 3" \<comment> \<open>3 bytes of padding round the size up to the alignment of \<open>int\<close>\<close>

definition sizeof_union :: nat where
  "sizeof_union = max sizeof_ValueStruct (max sizeof_MValueStruct sizeof_MessageStruct)"

definition sizeof_ExportData :: nat where
  "sizeof_ExportData = 4 + 4 + sizeof_union" \<comment> \<open>4 bytes of padding align the union, which holds a \<open>long\<close>\<close>

definition repr_ValueStruct :: "ValueStruct \<Rightarrow> byte list" where
  "repr_ValueStruct v =
     le_bytes 4 (unat (v_type v)) @ le_bytes 4 (unat (v_val v)) @ le_bytes 8 (unat (v_timestamp v))"

definition repr_MValueStruct :: "(nat \<Rightarrow> byte) \<Rightarrow> nat \<Rightarrow> MValueStruct \<Rightarrow> byte list" where
  "repr_MValueStruct g off m =
     le_bytes 4 (unat (mv_type m)) @ concat (map (\<lambda>f. le_bytes 4 (unat f)) (mv_val m))
       @ pad g (off + 44) 4 @ le_bytes 8 (unat (mv_timestamp m))"

definition repr_MessageStruct :: "(nat \<Rightarrow> byte) \<Rightarrow> nat \<Rightarrow> MessageStruct \<Rightarrow> byte list" where
  "repr_MessageStruct g off m =
     le_bytes 4 (unat (msg_type m)) @ message m @ pad g (off + 25) 3"

definition repr_union :: "(nat \<Rightarrow> byte) \<Rightarrow> nat \<Rightarrow> export_union \<Rightarrow> byte list" where
  "repr_union g off u =
     (case u of
        Val v \<Rightarrow>
          repr_ValueStruct v
            @ pad g (off + sizeof_ValueStruct) (sizeof_union - sizeof_ValueStruct)
      | Mvals m \<Rightarrow> repr_MValueStruct g off m
      | Messages m \<Rightarrow>
          repr_MessageStruct g off m
            @ pad g (off + sizeof_MessageStruct) (sizeof_union - sizeof_MessageStruct))"

definition repr_ExportData :: "(nat \<Rightarrow> byte) \<Rightarrow> ExportData \<Rightarrow> byte list" where
  "repr_ExportData g x = le_bytes 4 (unat (ed_type x)) @ pad g 4 4 @ repr_union g 8 (ed_union x)"

definition repr_slot :: "(nat \<Rightarrow> byte) \<Rightarrow> ExportData option \<Rightarrow> byte list" where
  "repr_slot g s =
     (case s of None \<Rightarrow> pad g 0 sizeof_ExportData | Some x \<Rightarrow> repr_ExportData g x)"

text \<open>The bytes of the whole array, slot after slot.\<close>

definition memory_image :: "env \<Rightarrow> buffer \<Rightarrow> byte list" where
  "memory_image e buf = concat (map (\<lambda>j. repr_slot (junk e j) (buf ! j)) [0..<length buf])"

text \<open>The blocks of the first \<open>n\<close> records of a run, as they lie in the array.\<close>

definition blocks :: "env \<Rightarrow> world \<Rightarrow> nat \<Rightarrow> byte list list" where
  "blocks e w n = map (\<lambda>j. repr_ExportData (junk e j) (record_at e w j)) [0..<n]"

subsection \<open>Writing the file\<close>

definition malloc :: "env \<Rightarrow> nat \<Rightarrow> buffer option" where
  "malloc e n = (if malloc_ok e then Some (replicate (n div sizeof_ExportData) None) else None)"

text \<open>
  \<open>fopen("../data", "w")\<close>: a stream on the file, truncated; or \<open>NULL\<close>. On this host
  a stream opened without \<open>b\<close> passes every byte through unchanged.
\<close>

definition fopen :: "env \<Rightarrow> world \<Rightarrow> FILE_ptr \<times> world" where
  "fopen e w = (if fopen_ok e then (Stream, w\<lparr>disk := []\<rparr>) else (NULL_stream, w))"

text \<open>
  \<open>fwrite(ptr, sz, nmemb, fp)\<close> appends the first \<open>sz * nmemb\<close> bytes found at
  \<open>ptr\<close>, or as many of them as the sink has room for, and returns the number of whole
  items written.
\<close>

definition fwrite ::
  "env \<Rightarrow> buffer option \<Rightarrow> nat \<Rightarrow> nat \<Rightarrow> FILE_ptr \<Rightarrow> world \<Rightarrow> (nat \<times> world) result" where
  "fwrite e ptr sz nmemb fp w =
     (case fp of
        NULL_stream \<Rightarrow> Inl (Fwrite_null_stream, w)
      | Stream \<Rightarrow>
          (let image = (case ptr of None \<Rightarrow> [] | Some buf \<Rightarrow> memory_image e buf)
           in if length image < sz * nmemb then Inl (Fwrite_out_of_bounds, w)
              else
                (let written = take (min (sz * nmemb) (room e)) image
                 in Inr (if sz = 0 then 0 else length written div sz,
                         w\<lparr>disk := disk w @ written\<rparr>))))"

text \<open>\<open>export\<close> drops what \<open>fwrite\<close> returns.\<close>

definition export :: "env \<Rightarrow> buffer option \<Rightarrow> nat \<Rightarrow> FILE_ptr \<Rightarrow> world \<Rightarrow> world result" where
  "export e data data_len fp w =
     (case fwrite e data sizeof_ExportData data_len fp w of
        Inl f \<Rightarrow> Inl f
      | Inr (n, w') \<Rightarrow> Inr w')"

text \<open>
  \<open>main\<close> checks none of its calls. \<open>free\<close> leaves nothing to observe, and the stream is
  flushed when \<open>main\<close> returns.
\<close>

definition main :: "env \<Rightarrow> world \<Rightarrow> (int \<times> world) result" where
  "main e w =
     (let data = malloc e (sizeof_ExportData * EXPORT_DATA_LEN)
      in case fill_export_data e data EXPORT_DATA_LEN w of
           Inl f \<Rightarrow> Inl f
         | Inr (data1, w1) \<Rightarrow>
             (let (fp, w2) = fopen e w1
              in case export e data1 EXPORT_DATA_LEN fp w2 of
                   Inl f \<Rightarrow> Inl f
                 | Inr w3 \<Rightarrow> Inr (0, w3)))"

subsection \<open>Reading the file back\<close>

definition le_word :: "byte list \<Rightarrow> 'a::len word" where
  "le_word bs = of_nat (le_value bs)"

definition field :: "byte list \<Rightarrow> nat \<Rightarrow> nat \<Rightarrow> byte list" where
  "field bs off n = take n (drop off bs)"

text \<open>
  Modelled from the spec: the reader of the exported file is not part of the C source.
  The spec asks that deserialising the stream "using the documented fixed layout
  reconstructs record count, discriminants, and payload values": the stream is cut into
  blocks of the fixed size, each block begins with the discriminant, and the
  discriminant says which variant's members are read, each at the offset where the
  writer's struct has it.
\<close>

definition decode_block :: "byte list \<Rightarrow> ExportData option" where
  "decode_block b =
     (let t = le_word (field b 0 4) :: c_int
      in if t = VALUE then
           Some \<lparr>ed_type = t,
                 ed_union = Val \<lparr>v_type = le_word (field b 8 4),
                                 v_val = le_word (field b 12 4),
                                 v_timestamp = le_word (field b 16 8)\<rparr>\<rparr>
         else if t = M_VALUE then
           Some \<lparr>ed_type = t,
                 ed_union = Mvals \<lparr>mv_type = le_word (field b 8 4),
                                   mv_val = map (\<lambda>k. le_word (field b (12 + 4 * k) 4)) [0..<10],
                                   mv_timestamp = le_word (field b 56 8)\<rparr>\<rparr>
         else if t = MESSAGE then
           Some \<lparr>ed_type = t,
                 ed_union = Messages \<lparr>msg_type = le_word (field b 8 4),
                                      message = field b 12 21\<rparr>\<rparr>
         else None)"

text \<open>
  Modelled from the spec: the stream is "simply \<open>N\<close> back-to-back fixed-size blocks", with
  no header and no separator, so its length tells the number of records.
\<close>

definition decode_stream :: "byte list \<Rightarrow> ExportData list option" where
  "decode_stream bs =
     (if length bs mod sizeof_ExportData \<noteq> 0 then None
      else those (map (\<lambda>k. decode_block (field bs (k * sizeof_ExportData) sizeof_ExportData))
                   [0..<length bs div sizeof_ExportData]))"

subsection \<open>Observations\<close>

text \<open>The \<open>type\<close> member of the struct held by the union.\<close>

definition inner_type :: "export_union \<Rightarrow> c_int" where
  "inner_type u =
     (case u of Val v \<Rightarrow> v_type v | Mvals m \<Rightarrow> mv_type m | Messages m \<Rightarrow> msg_type m)"

text \<open>The \<open>timestamp\<close> member of the struct held by the union; \<open>MessageStruct\<close> has none.\<close>

definition timestamp_of :: "export_union \<Rightarrow> c_long option" where
  "timestamp_of u =
     (case u of
        Val v \<Rightarrow> Some (v_timestamp v)
      | Mvals m \<Rightarrow> Some (mv_timestamp m)
      | Messages m \<Rightarrow> None)"

text \<open>The length of the C string held in a \<open>char\<close> array.\<close>

definition strlen :: "byte list \<Rightarrow> nat" where
  "strlen bs = length (takeWhile (\<lambda>b. b \<noteq> 0) bs)"

definition fault_of :: "'a result \<Rightarrow> fault option" where
  "fault_of r = (case r of Inl (f, w) \<Rightarrow> Some f | Inr x \<Rightarrow> None)"

definition slots_of :: "(buffer option \<times> world) result \<Rightarrow> buffer" where
  "slots_of r = (case r of Inr (Some buf, w) \<Rightarrow> buf | _ \<Rightarrow> [])"

text \<open>A fresh process, and an environment in which every call succeeds.\<close>

definition fresh_world :: world where
  "fresh_world = \<lparr>val_counter = 0, string_counter = 0, ticks = 0, console = [], disk = []\<rparr>"

definition fair_env :: env where
  "fair_env =
     \<lparr>clock = (\<lambda>n. 1700000000 + of_nat n),
      malloc_ok = True,
      fopen_ok = True,
      junk = (\<lambda>i j. 0xAA),
      room = 1000000\<rparr>"

text \<open>
  A 21-byte array that holds a C string: the string has at most 20 characters, and
  from its end, where the terminator stands, to the end of the array every byte is zero.
\<close>

definition c_string21 :: "byte list \<Rightarrow> bool" where
  "c_string21 bs \<longleftrightarrow>
     length bs = 21 \<and> strlen bs \<le> 20 \<and>
     drop (strlen bs) bs = replicate (21 - strlen bs) 0"

section \<open>Properties of the model\<close>

subsection \<open>The loop, iteration by iteration\<close>

lemma fill_from_done: "len \<le> i \<Longrightarrow> fill_export_data_from e data len i w = Inr (data, w)"
  by (simp add: fill_export_data_from.simps)

lemma fill_from_step:
  assumes "i < len" "i < length buf" "i < INT_MAX"
  shows "fill_export_data_from e (Some buf) len i (world_at e w0 i) =
         fill_export_data_from e (Some (buf[i := Some (record_at e w0 i)])) len (Suc i)
           (world_at e w0 (Suc i))"
  using assms
  by (subst fill_export_data_from.simps)
     (simp add: store_def record_at_def split: prod.splits)

lemma fill_from_run:
  assumes "i \<le> len" "len \<le> length buf" "len \<le> INT_MAX"
  shows "fill_export_data_from e (Some buf) len i (world_at e w0 i) =
         Inr (Some (take i buf @ map (\<lambda>j. Some (record_at e w0 j)) [i..<len] @ drop len buf),
              world_at e w0 len)"
  using assms
proof (induction "len - i" arbitrary: i buf)
  case 0
  then show ?case by (simp add: fill_from_done)
next
  case (Suc d)
  let ?r = "Some (record_at e w0 i)"
  from Suc have lt: "i < len" "i < length buf" "i < INT_MAX" by auto
  have "fill_export_data_from e (Some buf) len i (world_at e w0 i) =
        fill_export_data_from e (Some (buf[i := ?r])) len (Suc i) (world_at e w0 (Suc i))"
    by (rule fill_from_step [OF lt])
  also have "\<dots> = Inr (Some (take (Suc i) (buf[i := ?r])
                 @ map (\<lambda>j. Some (record_at e w0 j)) [Suc i..<len]
                 @ drop len (buf[i := ?r])), world_at e w0 len)"
    using Suc.hyps(2) Suc.prems lt by (intro Suc.hyps(1)) auto
  also have "take (Suc i) (buf[i := ?r]) = take i buf @ [?r]"
    using lt by (simp add: take_Suc_conv_app_nth)
  also have "drop len (buf[i := ?r]) = drop len buf"
    using lt by simp
  finally show ?case using lt by (simp add: upt_conv_Cons)
qed

lemma fill_export_data_run:
  assumes "len \<le> length buf" "len \<le> INT_MAX"
  shows "fill_export_data e (Some buf) len w =
         Inr (Some (map (\<lambda>j. Some (record_at e w j)) [0..<len] @ drop len buf), world_at e w len)"
  using fill_from_run [of 0 len buf e w] assms by (simp add: fill_export_data_def)

lemma filled_nth:
  "i < len \<Longrightarrow> (map (\<lambda>j. Some (record_at e w j)) [0..<len] @ rest) ! i = Some (record_at e w i)"
  by (simp add: nth_append)

text \<open>Past \<open>INT_MAX\<close> iterations the increment of the counter overflows.\<close>

lemma fill_from_last_int:
  assumes "INT_MAX < len" and "INT_MAX < length buf"
  shows "fill_export_data_from e (Some buf) len INT_MAX (world_at e w0 INT_MAX) =
         Inl (Int_overflow, world_at e w0 (Suc INT_MAX))"
  using assms
  by (subst fill_export_data_from.simps) (simp add: store_def split: prod.splits)

lemma fill_from_overflow:
  assumes "i \<le> INT_MAX" and "INT_MAX < len" and "len \<le> length buf"
  shows "fill_export_data_from e (Some buf) len i (world_at e w0 i) =
         Inl (Int_overflow, world_at e w0 (Suc INT_MAX))"
  using assms
proof (induction "INT_MAX - i" arbitrary: i buf)
  case 0
  then have "i = INT_MAX" by simp
  with 0 show ?case by (simp add: fill_from_last_int del: world_at.simps)
next
  case (Suc d)
  then have lt: "i < len" "i < length buf" "i < INT_MAX" by auto
  have "fill_export_data_from e (Some buf) len i (world_at e w0 i) =
        fill_export_data_from e (Some (buf[i := Some (record_at e w0 i)])) len (Suc i)
          (world_at e w0 (Suc i))"
    by (rule fill_from_step [OF lt])
  also have "\<dots> = Inl (Int_overflow, world_at e w0 (Suc INT_MAX))"
    using Suc.hyps(2) Suc.prems lt by (intro Suc.hyps(1)) auto
  finally show ?case .
qed

lemma fill_export_data_overflow:
  assumes "INT_MAX < len" and "len \<le> length buf"
  shows "fill_export_data e (Some buf) len w = Inl (Int_overflow, world_at e w (Suc INT_MAX))"
  using fill_from_overflow [of 0 len buf e w] assms by (simp add: fill_export_data_def)

text \<open>What one iteration does to the world.\<close>

lemma world_at_Suc_cases:
  "world_at e w (Suc n) =
     (if n mod 3 = 0 then
        (world_at e w n)\<lparr>val_counter := (val_counter (world_at e w n) + 1) mod 10,
                          ticks := Suc (ticks (world_at e w n)),
                          console := console (world_at e w n) @ [(n, 1)]\<rparr>
      else if n mod 3 = 1 then
        (world_at e w n)\<lparr>ticks := Suc (ticks (world_at e w n)),
                          console := console (world_at e w n) @ [(n, 2)]\<rparr>
      else
        (world_at e w n)\<lparr>string_counter := (string_counter (world_at e w n) + 1) mod 7,
                          console := console (world_at e w n) @ [(n, 3)]\<rparr>)"
  by (simp add: switch_export_def get_value_struct_def get_m_value_struct_def
      get_message_struct_def time_def printf_def VALUE_def M_VALUE_def MESSAGE_def
      FLOAT_ARRAY_LEN_def EXPORT_STRINGS_LEN_def Let_def)

lemma val_counter_world_at:
  "val_counter w < 10 \<Longrightarrow> val_counter (world_at e w n) = (val_counter w + (n + 2) div 3) mod 10"
proof (induction n)
  case 0
  then show ?case by simp
next
  case (Suc n)
  have "n mod 3 = 0 \<Longrightarrow> (Suc n + 2) div 3 = Suc ((n + 2) div 3)"
    and "n mod 3 \<noteq> 0 \<Longrightarrow> (Suc n + 2) div 3 = (n + 2) div 3"
    by presburger+
  with Suc show ?case
    by (simp only: world_at_Suc_cases) (simp add: mod_Suc_eq)
qed

lemma string_counter_world_at:
  "string_counter w < 7 \<Longrightarrow> string_counter (world_at e w n) = (string_counter w + n div 3) mod 7"
proof (induction n)
  case 0
  then show ?case by simp
next
  case (Suc n)
  have "n mod 3 = 2 \<Longrightarrow> Suc n div 3 = Suc (n div 3)"
    and "n mod 3 \<noteq> 2 \<Longrightarrow> Suc n div 3 = n div 3"
    by presburger+
  with Suc show ?case
    by (simp only: world_at_Suc_cases) (simp add: mod_Suc_eq)
qed

lemma ticks_world_at: "ticks (world_at e w n) = ticks w + (n - n div 3)"
proof (induction n)
  case 0
  then show ?case by simp
next
  case (Suc n)
  have d: "n mod 3 = 2 \<Longrightarrow> Suc n div 3 = Suc (n div 3)"
    "n mod 3 \<noteq> 2 \<Longrightarrow> Suc n div 3 = n div 3"
    by presburger+
  have le: "n div 3 \<le> n" by simp
  have "n mod 3 = 0 \<or> n mod 3 = 1 \<or> n mod 3 = 2" by presburger
  then show ?case
  proof (elim disjE)
    assume "n mod 3 = 0"
    then show ?thesis using Suc d le by (simp only: world_at_Suc_cases) (simp add: Suc_diff_le)
  next
    assume "n mod 3 = 1"
    then show ?thesis using Suc d le by (simp only: world_at_Suc_cases) (simp add: Suc_diff_le)
  next
    assume "n mod 3 = 2"
    then show ?thesis using Suc d le by (simp only: world_at_Suc_cases) simp
  qed
qed

lemma disk_world_at: "disk (world_at e w n) = disk w"
proof (induction n)
  case 0
  show ?case by simp
next
  case (Suc n)
  then show ?case by (simp only: world_at_Suc_cases) simp
qed

lemma length_console_world_at: "length (console (world_at e w n)) = length (console w) + n"
proof (induction n)
  case 0
  show ?case by simp
next
  case (Suc n)
  then show ?case by (simp only: world_at_Suc_cases) simp
qed

lemma length_export_strings_nth: "k < 7 \<Longrightarrow> length (export_strings ! k) = 21"
proof -
  have "\<forall>s \<in> set export_strings. length s = 21"
    by (simp add: export_strings_def char_array_def)
  moreover assume "k < 7"
  then have "export_strings ! k \<in> set export_strings"
    by (intro nth_mem) (simp add: export_strings_def)
  ultimately show ?thesis by blast
qed

lemma memcpy_float_array: "memcpy float_array 10 = float_array"
  by (simp add: memcpy_def float_array_def)

lemma record_at_cases:
  "record_at e w i =
     (if i mod 3 = 0 then
        \<lparr>ed_type = VALUE,
         ed_union = Val \<lparr>v_type = VALUE, v_val = float_array ! val_counter (world_at e w i),
                         v_timestamp = clock e (ticks (world_at e w i))\<rparr>\<rparr>
      else if i mod 3 = 1 then
        \<lparr>ed_type = M_VALUE,
         ed_union = Mvals \<lparr>mv_type = M_VALUE, mv_val = float_array,
                           mv_timestamp = clock e (ticks (world_at e w i))\<rparr>\<rparr>
      else
        \<lparr>ed_type = MESSAGE,
         ed_union = Messages \<lparr>msg_type = MESSAGE,
                              message = take 21 (export_strings ! string_counter (world_at e w i))\<rparr>\<rparr>)"
  by (simp add: record_at_def switch_export_def get_value_struct_def get_m_value_struct_def
      get_message_struct_def time_def memcpy_float_array Let_def)
     (simp add: memcpy_def)

subsection \<open>The record of each index\<close>

lemma record_at_Val:
  assumes "val_counter w < 10" and "i mod 3 = 0"
  shows "ed_union (record_at e w i) =
         Val \<lparr>v_type = VALUE, v_val = float_array ! ((val_counter w + i div 3) mod 10),
              v_timestamp = clock e (ticks w + (i - i div 3))\<rparr>"
proof -
  from assms(2) have "(i + 2) div 3 = i div 3" by presburger
  with assms show ?thesis
    by (simp add: record_at_cases val_counter_world_at ticks_world_at)
qed

lemma record_at_Mvals:
  assumes "i mod 3 = 1"
  shows "ed_union (record_at e w i) =
         Mvals \<lparr>mv_type = M_VALUE, mv_val = float_array,
                mv_timestamp = clock e (ticks w + (i - i div 3))\<rparr>"
  using assms by (simp add: record_at_cases ticks_world_at)

lemma record_at_Messages:
  assumes "string_counter w < 7" and "i mod 3 = 2"
  shows "ed_union (record_at e w i) =
         Messages \<lparr>msg_type = MESSAGE,
                   message = export_strings ! ((string_counter w + i div 3) mod 7)\<rparr>"
proof -
  have "length (export_strings ! ((string_counter w + i div 3) mod 7)) = 21"
    by (simp add: length_export_strings_nth)
  with assms show ?thesis
    by (simp add: record_at_cases string_counter_world_at)
qed

subsection \<open>The string table\<close>

lemma takeWhile_until_nul:
  "\<forall>b \<in> set bs. b \<noteq> (0::byte) \<Longrightarrow> takeWhile (\<lambda>b. b \<noteq> 0) (bs @ 0 # rest) = bs"
  by (induction bs) simp_all

lemma char_array_string:
  assumes "\<forall>c \<in> set s. (of_nat (of_char c) :: byte) \<noteq> 0" and "length s < n"
  shows "length (char_array n s) = n \<and> strlen (char_array n s) = length s \<and>
         drop (length s) (char_array n s) = replicate (n - length s) 0"
proof -
  let ?cs = "map (\<lambda>c. of_nat (of_char c) :: byte) s"
  from assms(2) have "replicate (n - length s) (0::byte) = 0 # replicate (n - length s - 1) 0"
    by (cases "n - length s") simp_all
  moreover from assms(1) have "\<forall>b \<in> set ?cs. b \<noteq> 0"
    by simp
  ultimately have "takeWhile (\<lambda>b. b \<noteq> 0) (char_array n s) = ?cs"
    unfolding char_array_def by (simp only: takeWhile_until_nul)
  then have "strlen (char_array n s) = length s"
    by (simp add: strlen_def)
  moreover have "length (char_array n s) = n"
    using assms(2) by (simp add: char_array_def)
  moreover have "drop (length s) (char_array n s) = replicate (n - length s) 0"
    by (simp add: char_array_def)
  ultimately show ?thesis by blast
qed

lemma c_string21_char_array:
  assumes "\<forall>c \<in> set s. (of_nat (of_char c) :: byte) \<noteq> 0" and "length s \<le> 20"
  shows "c_string21 (char_array 21 s)"
  using char_array_string [of s 21] assms by (simp add: c_string21_def)

lemma c_string21_export_strings: "k < 7 \<Longrightarrow> c_string21 (export_strings ! k)"
proof -
  have "\<forall>s \<in> set export_strings. c_string21 s"
    unfolding export_strings_def
    by (simp add: c_string21_char_array)
  moreover assume "k < 7"
  then have "export_strings ! k \<in> set export_strings"
    by (intro nth_mem) (simp add: export_strings_def)
  ultimately show ?thesis by blast
qed

subsection \<open>\<open>main\<close> when a call fails\<close>

lemma fill_export_data_null:
  "0 < len \<Longrightarrow> fill_export_data e None len w = Inl (Null_store, world_at e w 1)"
  unfolding fill_export_data_def
  by (subst fill_export_data_from.simps) (simp add: store_def split: prod.splits)

lemma main_malloc_fails:
  "\<not> malloc_ok e \<Longrightarrow> main e w = Inl (Null_store, world_at e w 1)"
  by (simp add: main_def malloc_def fill_export_data_null EXPORT_DATA_LEN_def del: world_at.simps)

lemma main_filled:
  assumes "malloc_ok e"
  shows "fill_export_data e (malloc e (sizeof_ExportData * EXPORT_DATA_LEN)) EXPORT_DATA_LEN w =
         Inr (Some (map (\<lambda>j. Some (record_at e w j)) [0..<100]), world_at e w 100)"
proof -
  have "malloc e (sizeof_ExportData * EXPORT_DATA_LEN) = Some (replicate 100 None)"
    using assms
    by (simp add: malloc_def EXPORT_DATA_LEN_def sizeof_ExportData_def sizeof_union_def
        sizeof_ValueStruct_def sizeof_MValueStruct_def sizeof_MessageStruct_def)
  then show ?thesis
    by (simp add: fill_export_data_run EXPORT_DATA_LEN_def INT_MAX_def)
qed

lemma main_fopen_fails:
  assumes "malloc_ok e" and "\<not> fopen_ok e"
  shows "main e w = Inl (Fwrite_null_stream, world_at e w 100)"
  using assms(2)
  by (simp add: main_def Let_def main_filled [OF assms(1)] fopen_def export_def fwrite_def)

subsection \<open>Bytes of integers\<close>

lemma length_le_bytes [simp]: "length (le_bytes n x) = n"
  by (induction n arbitrary: x) simp_all

lemma le_value_le_bytes: "le_value (le_bytes n x) = x mod 256 ^ n"
proof (induction n arbitrary: x)
  case 0
  show ?case by simp
next
  case (Suc n)
  have "unat (of_nat (x mod 256) :: byte) = x mod 256"
    by (simp add: unat_of_nat)
  with Suc show ?case
    by (simp add: mod_mult2_eq)
qed

lemma le_word_int: "le_word (le_bytes 4 (unat t)) = (t :: 32 word)"
proof -
  have "unat t < 2 ^ 32"
    using unsigned_less [of t, where ?'a = nat] by simp
  then have "unat t mod 256 ^ 4 = unat t"
    by simp
  then show ?thesis
    by (simp add: le_word_def le_value_le_bytes)
qed

lemma le_word_long: "le_word (le_bytes 8 (unat t)) = (t :: 64 word)"
proof -
  have "unat t < 2 ^ 64"
    using unsigned_less [of t, where ?'a = nat] by simp
  then have "unat t mod 256 ^ 8 = unat t"
    by simp
  then show ?thesis
    by (simp add: le_word_def le_value_le_bytes)
qed

lemma length_pad [simp]: "length (pad g off n) = n"
  by (simp add: pad_def)

subsection \<open>Blocks of one size\<close>

lemma length_concat_blocks:
  "\<forall>b \<in> set bs. length b = c \<Longrightarrow> length (concat bs) = c * length bs"
  by (induction bs) simp_all

lemma block_nth:
  "\<forall>b \<in> set bs. length b = c \<Longrightarrow> k < length bs \<Longrightarrow>
   take c (drop (k * c) (concat bs @ rest)) = bs ! k"
proof (induction bs arbitrary: k)
  case Nil
  then show ?case by simp
next
  case (Cons b bs)
  show ?case
  proof (cases k)
    case 0
    with Cons.prems show ?thesis by simp
  next
    case (Suc j)
    with Cons.prems have "take c (drop (j * c) (concat bs @ rest)) = bs ! j"
      by (intro Cons.IH) simp_all
    with Suc Cons.prems show ?thesis by simp
  qed
qed

lemma sizeof_ExportData_64: "sizeof_ExportData = 64"
  by (simp add: sizeof_ExportData_def sizeof_union_def sizeof_ValueStruct_def
      sizeof_MValueStruct_def sizeof_MessageStruct_def)

subsection \<open>The representation of a record, and its reading\<close>

lemma length_floats [simp]:
  "length (concat (map (\<lambda>f. le_bytes 4 (unat f)) (fs :: c_float list))) = 4 * length fs"
  by (induction fs) simp_all

lemma length_repr_Val:
  "length (repr_ExportData g \<lparr>ed_type = t, ed_union = Val v\<rparr>) = sizeof_ExportData"
  by (simp add: repr_ExportData_def repr_union_def repr_ValueStruct_def sizeof_ExportData_def
      sizeof_union_def sizeof_ValueStruct_def sizeof_MValueStruct_def sizeof_MessageStruct_def)

lemma length_repr_Mvals:
  "length (mv_val m) = 10 \<Longrightarrow>
   length (repr_ExportData g \<lparr>ed_type = t, ed_union = Mvals m\<rparr>) = sizeof_ExportData"
  by (simp add: repr_ExportData_def repr_union_def repr_MValueStruct_def sizeof_ExportData_def
      sizeof_union_def sizeof_ValueStruct_def sizeof_MValueStruct_def sizeof_MessageStruct_def)

lemma length_repr_Messages:
  "length (message m) = 21 \<Longrightarrow>
   length (repr_ExportData g \<lparr>ed_type = t, ed_union = Messages m\<rparr>) = sizeof_ExportData"
  by (simp add: repr_ExportData_def repr_union_def repr_MessageStruct_def sizeof_ExportData_def
      sizeof_union_def sizeof_ValueStruct_def sizeof_MValueStruct_def sizeof_MessageStruct_def)

lemma decode_Val:
  "decode_block (repr_ExportData g \<lparr>ed_type = VALUE, ed_union = Val v\<rparr>) =
   Some \<lparr>ed_type = VALUE, ed_union = Val v\<rparr>"
  by (simp add: decode_block_def repr_ExportData_def repr_union_def repr_ValueStruct_def
      field_def le_word_int le_word_long Let_def)

lemma float_field:
  assumes "k < length (fs :: c_float list)"
  shows "le_word (take 4 (drop (4 * k) (concat (map (\<lambda>f. le_bytes 4 (unat f)) fs) @ rest))) = fs ! k"
proof -
  have "take 4 (drop (k * 4) (concat (map (\<lambda>f. le_bytes 4 (unat f)) fs) @ rest)) =
        map (\<lambda>f. le_bytes 4 (unat f)) fs ! k"
    using assms by (intro block_nth) simp_all
  with assms show ?thesis
    by (simp add: le_word_int mult.commute)
qed

lemma decode_Mvals:
  assumes "length (mv_val m) = 10"
  shows "decode_block (repr_ExportData g \<lparr>ed_type = M_VALUE, ed_union = Mvals m\<rparr>) =
         Some \<lparr>ed_type = M_VALUE, ed_union = Mvals m\<rparr>"
proof -
  let ?b = "repr_ExportData g \<lparr>ed_type = M_VALUE, ed_union = Mvals m\<rparr>"
  let ?fs = "concat (map (\<lambda>f. le_bytes 4 (unat f)) (mv_val m))"
  let ?rest = "pad g (8 + 44) 4 @ le_bytes 8 (unat (mv_timestamp m))"
  have b: "?b = le_bytes 4 (unat M_VALUE) @ pad g 4 4 @ le_bytes 4 (unat (mv_type m)) @ ?fs @ ?rest"
    by (simp add: repr_ExportData_def repr_union_def repr_MValueStruct_def)
  have t: "le_word (field ?b 0 4) = M_VALUE"
    by (simp add: b field_def le_word_int)
  have t': "le_word (field ?b 8 4) = mv_type m"
    by (simp add: b field_def le_word_int)
  have ts: "le_word (field ?b 56 8) = mv_timestamp m"
    using assms by (simp add: b field_def le_word_long)
  have f: "le_word (field ?b (12 + 4 * k) 4) = mv_val m ! k" if "k < 10" for k
  proof -
    have "field ?b (12 + 4 * k) 4 = take 4 (drop (4 * k) (?fs @ ?rest))"
      by (simp add: b field_def)
    with that assms show ?thesis
      by (simp only: float_field)
  qed
  have "map (\<lambda>k. le_word (field ?b (12 + 4 * k) 4)) [0..<10] = map (\<lambda>k. mv_val m ! k) [0..<10]"
    by (rule map_cong) (simp_all add: f)
  also have "\<dots> = mv_val m"
    using assms map_nth [of "mv_val m"] by simp
  finally have fs: "map (\<lambda>k. le_word (field ?b (12 + 4 * k) 4)) [0..<10] = mv_val m" .
  show ?thesis
    unfolding decode_block_def t t' ts fs
    by (simp add: VALUE_def M_VALUE_def)
qed

lemma decode_Messages:
  assumes "length (message m) = 21"
  shows "decode_block (repr_ExportData g \<lparr>ed_type = MESSAGE, ed_union = Messages m\<rparr>) =
         Some \<lparr>ed_type = MESSAGE, ed_union = Messages m\<rparr>"
proof -
  let ?b = "repr_ExportData g \<lparr>ed_type = MESSAGE, ed_union = Messages m\<rparr>"
  have b: "?b = le_bytes 4 (unat MESSAGE) @ pad g 4 4 @ le_bytes 4 (unat (msg_type m)) @ message m
      @ pad g (8 + 25) 3 @ pad g (8 + sizeof_MessageStruct) (sizeof_union - sizeof_MessageStruct)"
    by (simp add: repr_ExportData_def repr_union_def repr_MessageStruct_def)
  have t: "le_word (field ?b 0 4) = MESSAGE"
    by (simp add: b field_def le_word_int)
  have t': "le_word (field ?b 8 4) = msg_type m"
    by (simp add: b field_def le_word_int)
  have msg: "field ?b 12 21 = message m"
    using assms by (simp add: b field_def)
  show ?thesis
    unfolding decode_block_def t t' msg
    by (simp add: VALUE_def M_VALUE_def MESSAGE_def)
qed

subsection \<open>The file that a run writes\<close>

lemma record_block:
  assumes "string_counter w < 7"
  shows "length (repr_ExportData g (record_at e w i)) = sizeof_ExportData"
    and "decode_block (repr_ExportData g (record_at e w i)) = Some (record_at e w i)"
proof -
  have ten: "length float_array = 10"
    by (simp add: float_array_def)
  have "string_counter (world_at e w i) < 7"
    using assms by (simp add: string_counter_world_at)
  then have full: "length (take 21 (export_strings ! string_counter (world_at e w i))) = 21"
    by (simp add: length_export_strings_nth)
  show "length (repr_ExportData g (record_at e w i)) = sizeof_ExportData"
    using ten full
    by (simp add: record_at_cases length_repr_Val length_repr_Mvals length_repr_Messages)
  show "decode_block (repr_ExportData g (record_at e w i)) = Some (record_at e w i)"
    using ten full
    by (simp add: record_at_cases decode_Val decode_Mvals decode_Messages)
qed

lemma length_blocks [simp]: "length (blocks e w n) = n"
  by (simp add: blocks_def)

lemma blocks_sized:
  "string_counter w < 7 \<Longrightarrow> \<forall>b \<in> set (blocks e w n). length b = sizeof_ExportData"
  by (auto simp add: blocks_def record_block)

lemma length_concat_blocks_run:
  "string_counter w < 7 \<Longrightarrow> length (concat (blocks e w n)) = n * sizeof_ExportData"
  using length_concat_blocks [OF blocks_sized, of w e n] by (simp add: mult.commute)

lemma memory_image_filled:
  assumes "n \<le> length buf"
  shows "\<exists>rest. memory_image e (map (\<lambda>j. Some (record_at e w j)) [0..<n] @ drop n buf) =
           concat (blocks e w n) @ rest"
proof -
  let ?buf' = "map (\<lambda>j. Some (record_at e w j)) [0..<n] @ drop n buf"
  let ?f = "\<lambda>j. repr_slot (junk e j) (?buf' ! j)"
  from assms have "length ?buf' = length buf"
    by simp
  moreover from assms have "[0..<length buf] = [0..<n] @ [n..<length buf]"
    by (metis le_iff_add upt_add_eq_append zero_le)
  ultimately have "memory_image e ?buf' = concat (map ?f [0..<n]) @ concat (map ?f [n..<length buf])"
    by (simp add: memory_image_def)
  moreover have "map ?f [0..<n] = blocks e w n"
    unfolding blocks_def by (rule map_cong) (simp_all add: nth_append repr_slot_def)
  ultimately show ?thesis
    by auto
qed

lemma export_filled:
  assumes "string_counter w < 7" and "n \<le> length buf" and "n * sizeof_ExportData \<le> room e"
  shows "export e (Some (map (\<lambda>j. Some (record_at e w j)) [0..<n] @ drop n buf)) n Stream w1 =
         Inr (w1\<lparr>disk := disk w1 @ concat (blocks e w n)\<rparr>)"
proof -
  from memory_image_filled [OF assms(2)] obtain rest where
    image: "memory_image e (map (\<lambda>j. Some (record_at e w j)) [0..<n] @ drop n buf) =
           concat (blocks e w n) @ rest"
    by blast
  have len: "length (concat (blocks e w n)) = n * sizeof_ExportData"
    using assms(1) by (rule length_concat_blocks_run)
  have "min (sizeof_ExportData * n) (room e) = n * sizeof_ExportData"
    using assms(3) by (simp add: mult.commute)
  with len show ?thesis
    by (simp add: export_def fwrite_def image Let_def mult.commute)
qed

lemma those_map_Some: "those (map (\<lambda>k. Some (f k)) xs) = Some (map f xs)"
  by (induction xs) simp_all

lemma decode_stream_blocks:
  assumes "string_counter w < 7"
  shows "decode_stream (concat (blocks e w n)) = Some (map (record_at e w) [0..<n])"
proof -
  let ?bs = "concat (blocks e w n)"
  have len: "length ?bs = n * sizeof_ExportData"
    using assms by (rule length_concat_blocks_run)
  have pos: "0 < sizeof_ExportData"
    by (simp add: sizeof_ExportData_64)
  have "field ?bs (k * sizeof_ExportData) sizeof_ExportData = blocks e w n ! k" if "k < n" for k
    using block_nth [OF blocks_sized [OF assms], of k e n "[]"] that by (simp add: field_def)
  then have "decode_block (field ?bs (k * sizeof_ExportData) sizeof_ExportData) =
      Some (record_at e w k)" if "k < n" for k
    using that assms by (simp add: blocks_def record_block)
  then have "map (\<lambda>k. decode_block (field ?bs (k * sizeof_ExportData) sizeof_ExportData)) [0..<n] =
      map (\<lambda>k. Some (record_at e w k)) [0..<n]"
    by (intro map_cong) simp_all
  then have "those (map (\<lambda>k. decode_block (field ?bs (k * sizeof_ExportData) sizeof_ExportData))
      [0..<n]) = Some (map (record_at e w) [0..<n])"
    by (simp only: those_map_Some)
  with len pos show ?thesis
    by (simp add: decode_stream_def)
qed

lemma fopen_opens: "fopen_ok e \<Longrightarrow> fopen e w = (Stream, w\<lparr>disk := []\<rparr>)"
  by (simp add: fopen_def)

subsection \<open>\<open>main\<close> when every call succeeds\<close>

lemma main_exports:
  assumes "malloc_ok e" and "fopen_ok e" and "string_counter w < 7" and "6400 \<le> room e"
  shows "main e w = Inr (0, (world_at e w 100)\<lparr>disk := concat (blocks e w 100)\<rparr>)"
proof -
  have "100 * sizeof_ExportData \<le> room e"
    using assms(4) by (simp add: sizeof_ExportData_64)
  then have "export e (Some (map (\<lambda>j. Some (record_at e w j)) [0..<100])) 100 Stream
               ((world_at e w 100)\<lparr>disk := []\<rparr>) =
             Inr ((world_at e w 100)\<lparr>disk := concat (blocks e w 100)\<rparr>)"
    using export_filled [OF assms(3), of 100 "replicate 100 None" e "(world_at e w 100)\<lparr>disk := []\<rparr>"]
    by simp
  then show ?thesis
    using assms(2) unfolding main_def Let_def main_filled [OF assms(1)]
    by (simp add: fopen_opens EXPORT_DATA_LEN_def)
qed

section \<open>The claims\<close>

text \<open>
  C1. In a run that generates \<open>len\<close> records into a buffer that holds them, the record
  stored at every index \<open>i < len\<close> has discriminant 1 when \<open>i mod 3 = 0\<close>, 2 when
  \<open>i mod 3 = 1\<close> and 3 when \<open>i mod 3 = 2\<close>, and the run returns.
\<close>

theorem discriminant_cycle:
  assumes "len \<le> length buf" and "len \<le> INT_MAX" and "i < len"
  shows "\<exists>buf' w'. fill_export_data e (Some buf) len w = Inr (Some buf', w') \<and>
           (\<exists>r. buf' ! i = Some r \<and>
              ed_type r = (if i mod 3 = 0 then 1 else if i mod 3 = 1 then 2 else 3))"
proof -
  have "ed_type (record_at e w i) = (if i mod 3 = 0 then 1 else if i mod 3 = 1 then 2 else 3)"
    by (simp add: record_at_cases VALUE_def M_VALUE_def MESSAGE_def)
  with assms show ?thesis
    by (simp add: fill_export_data_run filled_nth)
qed

theorem discriminant_cycle_witness:
  "(5::nat) \<le> length (replicate 8 (None :: ExportData option)) \<and> 5 \<le> INT_MAX \<and> (4::nat) < 5 \<and>
   (\<exists>buf' w'. fill_export_data fair_env (Some (replicate 8 None)) 5 fresh_world = Inr (Some buf', w') \<and>
      (\<exists>r. buf' ! 4 = Some r \<and> ed_type r = 2))"
  using discriminant_cycle [of 5 "replicate 8 None" 4 fair_env fresh_world]
  by (simp add: INT_MAX_def)

text \<open>
  C2. When \<open>n\<close> records are generated into a buffer that holds them, the sink opens
  and takes the whole write, the file holds exactly \<open>n * sizeof(ExportData)\<close> bytes
  after \<open>export\<close>; for \<open>n = 0\<close> that is the empty file.
\<close>

theorem output_size:
  assumes "string_counter w < EXPORT_STRINGS_LEN" and "n \<le> length buf" and "n \<le> INT_MAX"
    and "fopen_ok e" and "n * sizeof_ExportData \<le> room e"
  shows "\<exists>data w1 w2. fill_export_data e (Some buf) n w = Inr (data, w1) \<and>
           export e data n (fst (fopen e w1)) (snd (fopen e w1)) = Inr w2 \<and>
           length (disk w2) = n * sizeof_ExportData"
proof -
  let ?buf' = "map (\<lambda>j. Some (record_at e w j)) [0..<n] @ drop n buf"
  let ?w1 = "world_at e w n"
  let ?w2 = "?w1\<lparr>disk := concat (blocks e w n)\<rparr>"
  from assms(1) have sc: "string_counter w < 7"
    by (simp add: EXPORT_STRINGS_LEN_def)
  from assms have "fill_export_data e (Some buf) n w = Inr (Some ?buf', ?w1)"
    by (simp add: fill_export_data_run)
  moreover have "export e (Some ?buf') n (fst (fopen e ?w1)) (snd (fopen e ?w1)) = Inr ?w2"
    using export_filled [OF sc assms(2,5), of "?w1\<lparr>disk := []\<rparr>"] assms(4)
    by (simp add: fopen_opens)
  moreover have "length (disk ?w2) = n * sizeof_ExportData"
    using sc by (simp add: length_concat_blocks_run)
  ultimately show ?thesis
    by blast
qed

theorem output_size_witness:
  "string_counter fresh_world < EXPORT_STRINGS_LEN \<and>
   (5::nat) \<le> length (replicate 5 (None :: ExportData option)) \<and> 5 \<le> INT_MAX \<and>
   fopen_ok fair_env \<and> 5 * sizeof_ExportData \<le> room fair_env \<and>
   (\<exists>data w1 w2. fill_export_data fair_env (Some (replicate 5 None)) 5 fresh_world = Inr (data, w1) \<and>
      export fair_env data 5 (fst (fopen fair_env w1)) (snd (fopen fair_env w1)) = Inr w2 \<and>
      length (disk w2) = 320) \<and>
   (\<exists>data w1 w2. fill_export_data fair_env (Some []) 0 fresh_world = Inr (data, w1) \<and>
      export fair_env data 0 (fst (fopen fair_env w1)) (snd (fopen fair_env w1)) = Inr w2 \<and>
      disk w2 = [])"
  using output_size [of fresh_world 5 "replicate 5 None" fair_env]
    output_size [of fresh_world 0 "[]" fair_env]
  by (simp add: INT_MAX_def EXPORT_STRINGS_LEN_def sizeof_ExportData_64 fresh_world_def fair_env_def)

text \<open>
  C3. \<open>get_value_struct\<close> moves the float cursor one step forward, modulo 10, and
  neither \<open>get_m_value_struct\<close> nor \<open>get_message_struct\<close> touches it. In a run of
  \<open>len\<close> records from a fresh cursor the cursor ends at the number of Scalar records
  modulo 10, and the \<open>k\<close>-th Scalar record, the one at index \<open>3 * k\<close>, carries
  \<open>float_array[k mod 10]\<close>.
\<close>

theorem float_cursor:
  assumes "val_counter w = 0" and "len \<le> length buf" and "len \<le> INT_MAX" and "3 * k < len"
  shows "val_counter (snd (get_value_struct e w')) = (val_counter w' + 1) mod 10 \<and>
         val_counter (snd (get_m_value_struct e w')) = val_counter w' \<and>
         val_counter (snd (get_message_struct w')) = val_counter w' \<and>
         (\<exists>buf' w1. fill_export_data e (Some buf) len w = Inr (Some buf', w1) \<and>
            val_counter w1 = ((len + 2) div 3) mod 10 \<and>
            (\<exists>v. map_option ed_union (buf' ! (3 * k)) = Some (Val v) \<and>
                 v_val v = float_array ! (k mod 10)))"
proof -
  have a: "val_counter (snd (get_value_struct e w')) = (val_counter w' + 1) mod 10"
    by (simp add: get_value_struct_def time_def FLOAT_ARRAY_LEN_def)
  have b: "val_counter (snd (get_m_value_struct e w')) = val_counter w'"
    by (simp add: get_m_value_struct_def time_def)
  have c: "val_counter (snd (get_message_struct w')) = val_counter w'"
    by (simp add: get_message_struct_def)
  have vc: "val_counter (world_at e w n) = ((n + 2) div 3) mod 10" for n
    using assms(1) by (simp add: val_counter_world_at)
  have "(3 * k) mod 3 = 0" and "(3 * k) div 3 = k"
    by simp_all
  with assms(1) record_at_Val [of w "3 * k" e]
  have "ed_union (record_at e w (3 * k)) =
        Val \<lparr>v_type = VALUE, v_val = float_array ! (k mod 10),
             v_timestamp = clock e (ticks w + (3 * k - k))\<rparr>"
    by simp
  then have d: "\<exists>v. map_option ed_union (Some (record_at e w (3 * k))) = Some (Val v) \<and>
                 v_val v = float_array ! (k mod 10)"
    by simp
  from assms have run: "fill_export_data e (Some buf) len w =
      Inr (Some (map (\<lambda>j. Some (record_at e w j)) [0..<len] @ drop len buf), world_at e w len)"
    by (simp add: fill_export_data_run)
  have nth: "(map (\<lambda>j. Some (record_at e w j)) [0..<len] @ drop len buf) ! (3 * k) =
      Some (record_at e w (3 * k))"
    using assms(4) by (rule filled_nth)
  from a b c run vc [of len] d [folded nth] show ?thesis
    by blast
qed

theorem float_cursor_witness:
  "val_counter fresh_world = 0 \<and> (100::nat) \<le> length (replicate 100 (None :: ExportData option)) \<and>
   100 \<le> INT_MAX \<and> 3 * 10 < (100::nat) \<and>
   (\<exists>buf' w1. fill_export_data fair_env (Some (replicate 100 None)) 100 fresh_world = Inr (Some buf', w1) \<and>
      val_counter w1 = 4 \<and>
      (\<exists>v. map_option ed_union (buf' ! 30) = Some (Val v) \<and> v_val v = 0x3F800000))"
  using float_cursor [where w = fresh_world and len = 100 and buf = "replicate 100 None" and k = 10
      and e = fair_env]
  by (simp add: INT_MAX_def fresh_world_def float_array_def)

text \<open>
  C4. \<open>get_message_struct\<close> moves the string cursor one step forward, modulo 7, and
  the other two constructors leave it alone. In a run of \<open>len\<close> records from a fresh
  cursor the cursor ends at the number of Message records modulo 7, and the \<open>k\<close>-th
  Message record, the one at index \<open>3 * k + 2\<close>, carries \<open>export_strings[k mod 7]\<close>.
\<close>

theorem string_cursor:
  assumes "string_counter w = 0" and "len \<le> length buf" and "len \<le> INT_MAX" and "3 * k + 2 < len"
  shows "string_counter (snd (get_message_struct w')) = (string_counter w' + 1) mod 7 \<and>
         string_counter (snd (get_value_struct e w')) = string_counter w' \<and>
         string_counter (snd (get_m_value_struct e w')) = string_counter w' \<and>
         (\<exists>buf' w1. fill_export_data e (Some buf) len w = Inr (Some buf', w1) \<and>
            string_counter w1 = (len div 3) mod 7 \<and>
            (\<exists>m. map_option ed_union (buf' ! (3 * k + 2)) = Some (Messages m) \<and>
                 message m = export_strings ! (k mod 7)))"
proof -
  have a: "string_counter (snd (get_message_struct w')) = (string_counter w' + 1) mod 7"
    by (simp add: get_message_struct_def EXPORT_STRINGS_LEN_def)
  have b: "string_counter (snd (get_value_struct e w')) = string_counter w'"
    by (simp add: get_value_struct_def time_def)
  have c: "string_counter (snd (get_m_value_struct e w')) = string_counter w'"
    by (simp add: get_m_value_struct_def time_def)
  have sc: "string_counter (world_at e w n) = (n div 3) mod 7" for n
    using assms(1) by (simp add: string_counter_world_at)
  have "(3 * k + 2) mod 3 = 2" and "(3 * k + 2) div 3 = k"
    by presburger+
  with assms(1) record_at_Messages [of w "3 * k + 2" e]
  have "ed_union (record_at e w (3 * k + 2)) =
        Messages \<lparr>msg_type = MESSAGE, message = export_strings ! (k mod 7)\<rparr>"
    by simp
  then have d: "\<exists>m. map_option ed_union (Some (record_at e w (3 * k + 2))) = Some (Messages m) \<and>
                 message m = export_strings ! (k mod 7)"
    by simp
  from assms have run: "fill_export_data e (Some buf) len w =
      Inr (Some (map (\<lambda>j. Some (record_at e w j)) [0..<len] @ drop len buf), world_at e w len)"
    by (simp add: fill_export_data_run)
  have nth: "(map (\<lambda>j. Some (record_at e w j)) [0..<len] @ drop len buf) ! (3 * k + 2) =
      Some (record_at e w (3 * k + 2))"
    using assms(4) by (rule filled_nth)
  from a b c run sc [of len] d [folded nth] show ?thesis
    by blast
qed

theorem string_cursor_witness:
  "string_counter fresh_world = 0 \<and> (100::nat) \<le> length (replicate 100 (None :: ExportData option)) \<and>
   100 \<le> INT_MAX \<and> 3 * 8 + 2 < (100::nat) \<and>
   (\<exists>buf' w1. fill_export_data fair_env (Some (replicate 100 None)) 100 fresh_world = Inr (Some buf', w1) \<and>
      string_counter w1 = 5 \<and>
      (\<exists>m. map_option ed_union (buf' ! 26) = Some (Messages m) \<and> message m = char_array 21 ''Test''))"
  using string_cursor [where w = fresh_world and len = 100 and buf = "replicate 100 None" and k = 8
      and e = fair_env]
  by (simp add: INT_MAX_def fresh_world_def export_strings_def)

text \<open>
  C5. Whatever the float cursor is when the run starts, and so whatever it is when a
  Vector record is built, the record at every index \<open>i\<close> with \<open>i mod 3 = 1\<close> holds the ten
  elements of \<open>float_array\<close> in table order.
\<close>

theorem vector_payload:
  assumes "len \<le> length buf" and "len \<le> INT_MAX" and "i < len" and "i mod 3 = 1"
  shows "mv_val (fst (get_m_value_struct e w')) = float_array \<and>
         (\<exists>buf' w1. fill_export_data e (Some buf) len w = Inr (Some buf', w1) \<and>
            (\<exists>m. map_option ed_union (buf' ! i) = Some (Mvals m) \<and>
                 mv_val m = float_array \<and> length (mv_val m) = 10))"
proof -
  have a: "mv_val (fst (get_m_value_struct e w')) = float_array"
    by (simp add: get_m_value_struct_def time_def memcpy_float_array)
  have len10: "length float_array = 10"
    by (simp add: float_array_def)
  from assms have run: "fill_export_data e (Some buf) len w =
      Inr (Some (map (\<lambda>j. Some (record_at e w j)) [0..<len] @ drop len buf), world_at e w len)"
    by (simp add: fill_export_data_run)
  have nth: "(map (\<lambda>j. Some (record_at e w j)) [0..<len] @ drop len buf) ! i =
      Some (record_at e w i)"
    using assms(3) by (rule filled_nth)
  have "\<exists>m. map_option ed_union (Some (record_at e w i)) = Some (Mvals m) \<and>
          mv_val m = float_array \<and> length (mv_val m) = 10"
    using assms(4) len10 by (simp add: record_at_Mvals)
  from a run this [folded nth] show ?thesis
    by blast
qed

theorem vector_payload_witness:
  "(7::nat) \<le> length (replicate 7 (None :: ExportData option)) \<and> 7 \<le> INT_MAX \<and> (4::nat) < 7 \<and>
   (4::nat) mod 3 = 1 \<and>
   mv_val (fst (get_m_value_struct fair_env fresh_world)) = float_array \<and>
   (\<exists>buf' w1. fill_export_data fair_env (Some (replicate 7 None)) 7 (fresh_world\<lparr>val_counter := 6\<rparr>)
        = Inr (Some buf', w1) \<and>
      (\<exists>m. map_option ed_union (buf' ! 4) = Some (Mvals m) \<and>
           mv_val m = [0x3F800000, 0x40000000, 0x40400000, 0x40800000, 0x40A00000,
                       0x40C00000, 0x40E00000, 0x41000000, 0x41100000, 0x41200000] \<and>
           length (mv_val m) = 10))"
  using vector_payload [where len = 7 and buf = "replicate 7 None" and i = 4 and e = fair_env
      and w = "fresh_world\<lparr>val_counter := 6\<rparr>" and w' = fresh_world]
  by (simp add: INT_MAX_def) (simp add: float_array_def)

text \<open>
  C6. When \<open>n\<close> records are generated into a buffer that holds them, the sink opens
  and takes the whole write, reading the file back block by block gives \<open>n\<close> records,
  and the record read at each index is the record that the generator stored there:
  discriminant, payload, and timestamp too.
\<close>

theorem round_trip:
  assumes "string_counter w < EXPORT_STRINGS_LEN" and "n \<le> length buf" and "n \<le> INT_MAX"
    and "fopen_ok e" and "n * sizeof_ExportData \<le> room e"
  shows "\<exists>buf' w1 w2 rs. fill_export_data e (Some buf) n w = Inr (Some buf', w1) \<and>
           export e (Some buf') n (fst (fopen e w1)) (snd (fopen e w1)) = Inr w2 \<and>
           decode_stream (disk w2) = Some rs \<and> length rs = n \<and>
           (\<forall>i < n. buf' ! i = Some (rs ! i))"
proof -
  let ?buf' = "map (\<lambda>j. Some (record_at e w j)) [0..<n] @ drop n buf"
  let ?w1 = "world_at e w n"
  let ?w2 = "?w1\<lparr>disk := concat (blocks e w n)\<rparr>"
  let ?rs = "map (record_at e w) [0..<n]"
  from assms(1) have sc: "string_counter w < 7"
    by (simp add: EXPORT_STRINGS_LEN_def)
  from assms have "fill_export_data e (Some buf) n w = Inr (Some ?buf', ?w1)"
    by (simp add: fill_export_data_run)
  moreover have "export e (Some ?buf') n (fst (fopen e ?w1)) (snd (fopen e ?w1)) = Inr ?w2"
    using export_filled [OF sc assms(2,5), of "?w1\<lparr>disk := []\<rparr>"] assms(4)
    by (simp add: fopen_opens)
  moreover have "decode_stream (disk ?w2) = Some ?rs"
    using sc by (simp add: decode_stream_blocks)
  moreover have "length ?rs = n"
    by simp
  moreover have "\<forall>i < n. ?buf' ! i = Some (?rs ! i)"
    by (simp add: nth_append)
  ultimately show ?thesis
    by blast
qed

theorem round_trip_witness:
  "string_counter fresh_world < EXPORT_STRINGS_LEN \<and>
   (4::nat) \<le> length (replicate 6 (None :: ExportData option)) \<and> 4 \<le> INT_MAX \<and>
   fopen_ok fair_env \<and> 4 * sizeof_ExportData \<le> room fair_env \<and>
   (\<exists>buf' w1 w2 rs. fill_export_data fair_env (Some (replicate 6 None)) 4 fresh_world = Inr (Some buf', w1) \<and>
      export fair_env (Some buf') 4 (fst (fopen fair_env w1)) (snd (fopen fair_env w1)) = Inr w2 \<and>
      decode_stream (disk w2) = Some rs \<and> length rs = 4 \<and>
      (\<forall>i < 4. buf' ! i = Some (rs ! i)))"
  using round_trip [of fresh_world 4 "replicate 6 None" fair_env]
  by (simp add: INT_MAX_def EXPORT_STRINGS_LEN_def sizeof_ExportData_64 fresh_world_def fair_env_def)

text \<open>
  C7 as stated fails on Message records: in a run of three records from a fresh
  process the Scalar and the Vector record carry the first and the second reading of
  the clock, the Message record carries no timestamp, and building a Message record
  does not read the clock.
\<close>

theorem message_without_timestamp:
  "map (map_option (timestamp_of \<circ> ed_union))
       (slots_of (fill_export_data fair_env (Some (replicate 3 None)) 3 fresh_world)) =
     [Some (Some 1700000000), Some (Some 1700000001), Some None] \<and>
   ticks (snd (get_message_struct fresh_world)) = ticks fresh_world"
proof -
  have run: "fill_export_data fair_env (Some (replicate 3 None)) 3 fresh_world =
      Inr (Some (map (\<lambda>j. Some (record_at fair_env fresh_world j)) [0..<3] @ drop 3 (replicate 3 None)),
           world_at fair_env fresh_world 3)"
    by (rule fill_export_data_run) (simp_all add: INT_MAX_def)
  have upt_0_3: "[0..<3] = [0, 1, 2::nat]"
    by (simp add: numeral_3_eq_3)
  have quiet: "ticks (snd (get_message_struct fresh_world)) = ticks fresh_world"
    by (simp add: get_message_struct_def)
  have "map (map_option (timestamp_of \<circ> ed_union))
       (slots_of (fill_export_data fair_env (Some (replicate 3 None)) 3 fresh_world)) =
     [Some (Some 1700000000), Some (Some 1700000001), Some None]"
    unfolding run upt_0_3
    by (simp add: slots_of_def record_at_cases ticks_world_at timestamp_of_def
        fair_env_def fresh_world_def del: world_at.simps)
  then show ?thesis using quiet by (rule conjI)
qed

text \<open>
  C7, amended. Every Scalar record and every Vector record carries the reading of the
  call of \<open>time(NULL)\<close> made while it is built, each record a call of its own: the record
  at index \<open>i\<close> holds the reading taken after the \<open>i - i div 3\<close> readings of the records
  before it. \<open>MessageStruct\<close> has no timestamp member, and \<open>get_message_struct\<close> does not
  read the clock.
\<close>

theorem timestamps:
  assumes "len \<le> length buf" and "len \<le> INT_MAX" and "i < len"
  shows "v_timestamp (fst (get_value_struct e w')) = clock e (ticks w') \<and>
         ticks (snd (get_value_struct e w')) = Suc (ticks w') \<and>
         mv_timestamp (fst (get_m_value_struct e w')) = clock e (ticks w') \<and>
         ticks (snd (get_m_value_struct e w')) = Suc (ticks w') \<and>
         ticks (snd (get_message_struct w')) = ticks w' \<and>
         (\<exists>buf' w1. fill_export_data e (Some buf) len w = Inr (Some buf', w1) \<and>
            (\<exists>r. buf' ! i = Some r \<and>
                 timestamp_of (ed_union r) =
                   (if i mod 3 = 2 then None else Some (clock e (ticks w + (i - i div 3))))))"
proof -
  have a: "v_timestamp (fst (get_value_struct e w')) = clock e (ticks w')"
    "ticks (snd (get_value_struct e w')) = Suc (ticks w')"
    by (simp_all add: get_value_struct_def time_def)
  have b: "mv_timestamp (fst (get_m_value_struct e w')) = clock e (ticks w')"
    "ticks (snd (get_m_value_struct e w')) = Suc (ticks w')"
    by (simp_all add: get_m_value_struct_def time_def)
  have c: "ticks (snd (get_message_struct w')) = ticks w'"
    by (simp add: get_message_struct_def)
  from assms have run: "fill_export_data e (Some buf) len w =
      Inr (Some (map (\<lambda>j. Some (record_at e w j)) [0..<len] @ drop len buf), world_at e w len)"
    by (simp add: fill_export_data_run)
  have nth: "(map (\<lambda>j. Some (record_at e w j)) [0..<len] @ drop len buf) ! i =
      Some (record_at e w i)"
    using assms(3) by (rule filled_nth)
  have "i mod 3 = 0 \<or> i mod 3 = 1 \<or> i mod 3 = 2"
    by presburger
  then have "timestamp_of (ed_union (record_at e w i)) =
      (if i mod 3 = 2 then None else Some (clock e (ticks w + (i - i div 3))))"
    by (auto simp add: record_at_cases ticks_world_at timestamp_of_def)
  with a b c run nth show ?thesis
    by blast
qed

theorem timestamps_witness:
  "(7::nat) \<le> length (replicate 7 (None :: ExportData option)) \<and> 7 \<le> INT_MAX \<and> (4::nat) < 7 \<and>
   (\<exists>buf' w1. fill_export_data fair_env (Some (replicate 7 None)) 7 fresh_world = Inr (Some buf', w1) \<and>
      (\<exists>r. buf' ! 4 = Some r \<and> timestamp_of (ed_union r) = Some 1700000003))"
  using timestamps [where len = 7 and buf = "replicate 7 None" and i = 4 and e = fair_env
      and w = fresh_world and w' = fresh_world]
  by (simp add: INT_MAX_def fair_env_def fresh_world_def)

text \<open>
  C8 as stated fails when the sink cannot be opened: the run does not stop before the
  write, it goes on into \<open>fwrite\<close> with the null stream. When the allocation fails
  it goes on into the store of the first record.
\<close>

theorem write_attempted_on_null_stream:
  "fault_of (main (fair_env\<lparr>fopen_ok := False\<rparr>) fresh_world) = Some Fwrite_null_stream \<and>
   fault_of (main (fair_env\<lparr>malloc_ok := False\<rparr>) fresh_world) = Some Null_store"
  by (simp add: main_malloc_fails main_fopen_fails fault_of_def fair_env_def del: world_at.simps)

text \<open>
  C8, amended. \<open>main\<close> checks neither result. When the allocation fails,
  \<open>fill_export_data\<close> stores the first record through the null pointer, before the sink
  is opened. When the sink cannot be opened, all 100 records are generated and \<open>export\<close>
  calls \<open>fwrite\<close> with the null stream. C defines neither behaviour; in both runs the
  file is as it was.
\<close>

theorem unchecked_failures:
  "(\<not> malloc_ok e \<longrightarrow>
      (\<exists>w'. main e w = Inl (Null_store, w') \<and> disk w' = disk w \<and>
            length (console w') = length (console w) + 1)) \<and>
   (malloc_ok e \<and> \<not> fopen_ok e \<longrightarrow>
      (\<exists>w'. main e w = Inl (Fwrite_null_stream, w') \<and> disk w' = disk w \<and>
            length (console w') = length (console w) + 100))"
proof (intro conjI impI)
  assume "\<not> malloc_ok e"
  then have "main e w = Inl (Null_store, world_at e w 1)"
    by (rule main_malloc_fails)
  moreover have "disk (world_at e w 1) = disk w"
    by (rule disk_world_at)
  moreover have "length (console (world_at e w 1)) = length (console w) + 1"
    by (rule length_console_world_at)
  ultimately show "\<exists>w'. main e w = Inl (Null_store, w') \<and> disk w' = disk w \<and>
      length (console w') = length (console w) + 1"
    by blast
next
  assume "malloc_ok e \<and> \<not> fopen_ok e"
  then have "main e w = Inl (Fwrite_null_stream, world_at e w 100)"
    by (simp add: main_fopen_fails)
  moreover have "disk (world_at e w 100) = disk w"
    by (rule disk_world_at)
  moreover have "length (console (world_at e w 100)) = length (console w) + 100"
    by (rule length_console_world_at)
  ultimately show "\<exists>w'. main e w = Inl (Fwrite_null_stream, w') \<and> disk w' = disk w \<and>
      length (console w') = length (console w) + 100"
    by blast
qed

theorem unchecked_failures_witness:
  "\<not> malloc_ok (fair_env\<lparr>malloc_ok := False\<rparr>) \<and>
   (\<exists>w'. main (fair_env\<lparr>malloc_ok := False\<rparr>) (fresh_world\<lparr>disk := [1, 2, 3]\<rparr>) = Inl (Null_store, w') \<and>
      disk w' = [1, 2, 3] \<and> length (console w') = 1) \<and>
   malloc_ok (fair_env\<lparr>fopen_ok := False\<rparr>) \<and> \<not> fopen_ok (fair_env\<lparr>fopen_ok := False\<rparr>) \<and>
   (\<exists>w'. main (fair_env\<lparr>fopen_ok := False\<rparr>) (fresh_world\<lparr>disk := [1, 2, 3]\<rparr>) = Inl (Fwrite_null_stream, w') \<and>
      disk w' = [1, 2, 3] \<and> length (console w') = 100)"
  using unchecked_failures [of "fair_env\<lparr>malloc_ok := False\<rparr>" "fresh_world\<lparr>disk := [1, 2, 3]\<rparr>"]
    unchecked_failures [of "fair_env\<lparr>fopen_ok := False\<rparr>" "fresh_world\<lparr>disk := [1, 2, 3]\<rparr>"]
  by (simp add: fair_env_def fresh_world_def)

text \<open>
  C9. The buffer of every Message record of a run is the whole 21-byte row of
  \<open>export_strings\<close> that the string cursor selects when the record is built. So it has
  21 bytes and holds a string of at most 20 characters, and what follows the string,
  from the terminator to the end of the buffer, is zero bytes only.
\<close>

theorem message_zero_padded:
  assumes "string_counter w < EXPORT_STRINGS_LEN" and "len \<le> length buf" and "len \<le> INT_MAX"
    and "i < len" and "i mod 3 = 2"
  shows "\<exists>buf' w1. fill_export_data e (Some buf) len w = Inr (Some buf', w1) \<and>
           (\<exists>m. map_option ed_union (buf' ! i) = Some (Messages m) \<and>
                message m = export_strings ! ((string_counter w + i div 3) mod 7) \<and>
                length (message m) = 21 \<and> strlen (message m) \<le> 20 \<and>
                drop (strlen (message m)) (message m) =
                  replicate (21 - strlen (message m)) 0)"
proof -
  from assms have run: "fill_export_data e (Some buf) len w =
      Inr (Some (map (\<lambda>j. Some (record_at e w j)) [0..<len] @ drop len buf), world_at e w len)"
    by (simp add: fill_export_data_run)
  have nth: "(map (\<lambda>j. Some (record_at e w j)) [0..<len] @ drop len buf) ! i =
      Some (record_at e w i)"
    using assms(4) by (rule filled_nth)
  let ?s = "export_strings ! ((string_counter w + i div 3) mod 7)"
  have "c_string21 ?s"
    by (simp add: c_string21_export_strings)
  moreover have "ed_union (record_at e w i) = Messages \<lparr>msg_type = MESSAGE, message = ?s\<rparr>"
    using assms(1,5) by (simp add: record_at_Messages EXPORT_STRINGS_LEN_def)
  ultimately have "\<exists>m. map_option ed_union (Some (record_at e w i)) = Some (Messages m) \<and>
                message m = export_strings ! ((string_counter w + i div 3) mod 7) \<and>
                length (message m) = 21 \<and> strlen (message m) \<le> 20 \<and>
                drop (strlen (message m)) (message m) =
                  replicate (21 - strlen (message m)) 0"
    by (simp add: c_string21_def)
  from run this [folded nth] show ?thesis
    by blast
qed

theorem message_zero_padded_witness:
  "string_counter (fresh_world\<lparr>string_counter := 5\<rparr>) < EXPORT_STRINGS_LEN \<and>
   (9::nat) \<le> length (replicate 9 (None :: ExportData option)) \<and> 9 \<le> INT_MAX \<and> (2::nat) < 9 \<and>
   (2::nat) mod 3 = 2 \<and>
   (\<exists>buf' w1. fill_export_data fair_env (Some (replicate 9 None)) 9
        (fresh_world\<lparr>string_counter := 5\<rparr>) = Inr (Some buf', w1) \<and>
      (\<exists>m. map_option ed_union (buf' ! 2) = Some (Messages m) \<and>
           message m = char_array 21 ''AnswerToTheUniverse'' \<and>
           length (message m) = 21 \<and> strlen (message m) \<le> 20 \<and>
           drop (strlen (message m)) (message m) = replicate (21 - strlen (message m)) 0))"
  using message_zero_padded [where w = "fresh_world\<lparr>string_counter := 5\<rparr>" and len = 9
      and buf = "replicate 9 None" and i = 2 and e = fair_env]
  by (simp add: INT_MAX_def EXPORT_STRINGS_LEN_def fresh_world_def export_strings_def)

text \<open>
  C10. In every record of a run the \<open>type\<close> member of \<open>ExportData\<close> equals the \<open>type\<close>
  member of the struct stored in the union.
\<close>

theorem discriminants_agree:
  assumes "len \<le> length buf" and "len \<le> INT_MAX" and "i < len"
  shows "\<exists>buf' w1. fill_export_data e (Some buf) len w = Inr (Some buf', w1) \<and>
           (\<exists>r. buf' ! i = Some r \<and> ed_type r = inner_type (ed_union r) \<and>
                ed_type r = (if i mod 3 = 0 then 1 else if i mod 3 = 1 then 2 else 3))"
proof -
  from assms have run: "fill_export_data e (Some buf) len w =
      Inr (Some (map (\<lambda>j. Some (record_at e w j)) [0..<len] @ drop len buf), world_at e w len)"
    by (simp add: fill_export_data_run)
  have nth: "(map (\<lambda>j. Some (record_at e w j)) [0..<len] @ drop len buf) ! i =
      Some (record_at e w i)"
    using assms(3) by (rule filled_nth)
  have "ed_type (record_at e w i) = inner_type (ed_union (record_at e w i)) \<and>
        ed_type (record_at e w i) = (if i mod 3 = 0 then 1 else if i mod 3 = 1 then 2 else 3)"
    by (simp add: record_at_cases inner_type_def VALUE_def M_VALUE_def MESSAGE_def)
  with run nth show ?thesis
    by blast
qed

theorem discriminants_agree_witness:
  "(6::nat) \<le> length (replicate 6 (None :: ExportData option)) \<and> 6 \<le> INT_MAX \<and> (5::nat) < 6 \<and>
   (\<exists>buf' w1. fill_export_data fair_env (Some (replicate 6 None)) 6 fresh_world = Inr (Some buf', w1) \<and>
      (\<exists>r. buf' ! 5 = Some r \<and> ed_type r = inner_type (ed_union r) \<and> ed_type r = 3))"
  using discriminants_agree [of 6 "replicate 6 None" 5 fair_env fresh_world]
  by (simp add: INT_MAX_def)

end
